theory Spec2Isabelle
  imports
    Complex_Main
    "HOL-Library.AList"
    "HOL-Library.Char_ord"
    "HOL-Library.List_Lexorder"
begin

section \<open>The benchmark leaderboard cog\<close>

text \<open>
  A shallow embedding of \<^verbatim>\<open>benchmarkleaderboard.py\<close>: the class
  \<^verbatim>\<open>BenchmarkLeaderboard\<close> keeps a dictionary
  \<^verbatim>\<open>leaderboards: Dict[str, Dict[int, float]]\<close> in memory and hands the whole
  dictionary to \<^verbatim>\<open>Config.leaderboards.set\<close> after every mutation.
\<close>

subsection \<open>Scores: Python floats\<close>

text \<open>
  The command argument \<^verbatim>\<open>score: float\<close> is converted with \<^verbatim>\<open>float(text)\<close>, which
  also accepts \<^verbatim>\<open>nan\<close>, \<^verbatim>\<open>inf\<close> and \<^verbatim>\<open>-inf\<close>. The code only stores and compares
  scores, so a finite float is represented by the real number it denotes (every real is
  allowed, which only enlarges the set of inputs; \<^verbatim>\<open>-0.0\<close> and \<^verbatim>\<open>0.0\<close> compare equal
  and are both \<open>Finite 0\<close>). Every comparison with \<^verbatim>\<open>nan\<close> is false.
\<close>

datatype pyfloat = NaN | NegInf | Finite real | PosInf

fun float_lt :: "pyfloat \<Rightarrow> pyfloat \<Rightarrow> bool" where
  "float_lt NaN b = False"
| "float_lt a NaN = False"
| "float_lt NegInf NegInf = False"
| "float_lt NegInf b = True"
| "float_lt (Finite x) (Finite y) = (x < y)"
| "float_lt (Finite x) PosInf = True"
| "float_lt (Finite x) NegInf = False"
| "float_lt PosInf b = False"

definition float_gt :: "pyfloat \<Rightarrow> pyfloat \<Rightarrow> bool" where
  "float_gt a b = float_lt b a"

definition float_ge :: "pyfloat \<Rightarrow> pyfloat \<Rightarrow> bool" where
  "float_ge a b = (a \<noteq> NaN \<and> b \<noteq> NaN \<and> \<not> float_lt a b)"

definition float_le :: "pyfloat \<Rightarrow> pyfloat \<Rightarrow> bool" where
  "float_le a b = float_ge b a"

subsection \<open>The store: insertion-ordered dictionaries\<close>

text \<open>
  A Python \<^verbatim>\<open>dict\<close> iterates in insertion order, and the order decides ties in the
  rankings, so a dictionary is an association list: \<open>map_of\<close> is \<^verbatim>\<open>d.get(k)\<close>,
  \<open>AList.update\<close> is \<^verbatim>\<open>d[k] = v\<close> (in place for an old key, appended for a new one)
  and \<open>AList.delete\<close> is \<^verbatim>\<open>del d[k]\<close>. The keys of a dictionary are distinct.
\<close>

type_synonym user_id = int
type_synonym scores = "(user_id \<times> pyfloat) list"
type_synonym store = "(string \<times> scores) list"

definition wf_store :: "store \<Rightarrow> bool" where
  "wf_store lb = (distinct (map fst lb) \<and> list_all (\<lambda>entry. distinct (map fst (snd entry))) lb)"

text \<open>
  The state of the cog: the in-memory dictionary, the document that \<^verbatim>\<open>Config\<close> holds
  durably, and the number of calls of \<^verbatim>\<open>Config.leaderboards.set\<close> made so far.
\<close>

record cog =
  leaderboards :: store
  config :: store
  set_calls :: nat

record member =
  member_id :: user_id
  member_name :: string

datatype error = KeyError | PersistenceFailure

text \<open>One constructor for each message the commands send.\<close>

datatype reply =
    Added string pyfloat
  | NewHighScore string pyfloat pyfloat
  | NotUpdated pyfloat string
  | NoScoresFound string
  | ViewEmbed string "(nat \<times> string \<times> pyfloat) list"
  | NoTypes
  | AvailableTypes "string list"
  | NoLeaderboardFound string
  | DeletedScore string string
  | HasNoScore string string
  | DeletedLeaderboard string
  | NoHistory string
  | HistoryEmbed string "(string \<times> pyfloat) list"
  | NoScoresRecorded
  | OverallEmbed "(string \<times> (nat \<times> string \<times> pyfloat) list) list"

definition init :: cog where
  "init = \<lparr>leaderboards = [], config = [], set_calls = 0\<rparr>"

text \<open>
  \<^verbatim>\<open>cog_load\<close> replaces the store by the document held by \<^verbatim>\<open>Config\<close>. The document
  is taken with the keys it was written with; a host that stores it as JSON returns the
  user ids as strings, which is not modelled here.
\<close>

definition cog_load :: "cog \<Rightarrow> cog" where
  "cog_load st = st\<lparr>leaderboards := config st\<rparr>"

text \<open>
  \<^verbatim>\<open>await self.config.leaderboards.set(self.leaderboards)\<close>: the write belongs to the
  host; \<open>ok\<close> says whether it returns (the document is replaced by the whole store) or
  raises (the document stays). \<open>persist\<close> is the write followed by \<^verbatim>\<open>ctx.send\<close>, which
  is reached only when the write returned.
\<close>

definition config_set :: "bool \<Rightarrow> cog \<Rightarrow> cog" where
  "config_set ok st =
     st\<lparr>config := (if ok then leaderboards st else config st), set_calls := Suc (set_calls st)\<rparr>"

definition persist :: "bool \<Rightarrow> cog \<Rightarrow> reply \<Rightarrow> (error + reply) \<times> cog" where
  "persist ok st response = ((if ok then Inr response else Inl PersistenceFailure), config_set ok st)"

subsection \<open>Lookups\<close>

text \<open>\<^verbatim>\<open>self.leaderboards[benchmark_type].get(user_id)\<close> behind the membership test.\<close>

definition get_score :: "store \<Rightarrow> string \<Rightarrow> user_id \<Rightarrow> pyfloat option" where
  "get_score lb benchmark_type u =
     (case map_of lb benchmark_type of None \<Rightarrow> None | Some scores \<Rightarrow> map_of scores u)"

definition categories :: "store \<Rightarrow> string list" where
  "categories lb = map fst lb"

definition entries :: "store \<Rightarrow> string \<Rightarrow> nat" where
  "entries lb benchmark_type =
     (case map_of lb benchmark_type of None \<Rightarrow> 0 | Some scores \<Rightarrow> length scores)"

subsection \<open>benchmark add\<close>

definition benchmark_add :: "bool \<Rightarrow> cog \<Rightarrow> member \<Rightarrow> string \<Rightarrow> pyfloat \<Rightarrow> (error + reply) \<times> cog" where
  "benchmark_add ok st author benchmark_type score =
     (let lb = (if map_of (leaderboards st) benchmark_type = None
                then AList.update benchmark_type [] (leaderboards st)
                else leaderboards st);
          st1 = st\<lparr>leaderboards := lb\<rparr>;
          u = member_id author
      in case map_of lb benchmark_type of
           None \<Rightarrow> (Inl KeyError, st1)
         | Some scores \<Rightarrow>
             (case map_of scores u of
                None \<Rightarrow>
                  persist ok
                    (st1\<lparr>leaderboards := AList.update benchmark_type (AList.update u score scores) lb\<rparr>)
                    (Added benchmark_type score)
              | Some previous_score \<Rightarrow>
                  if float_gt score previous_score
                  then persist ok
                    (st1\<lparr>leaderboards := AList.update benchmark_type (AList.update u score scores) lb\<rparr>)
                    (NewHighScore benchmark_type previous_score score)
                  else (Inr (NotUpdated previous_score benchmark_type), st1)))"

definition accepted :: "error + reply \<Rightarrow> bool" where
  "accepted r = (case r of Inr (Added t s) \<Rightarrow> True | Inr (NewHighScore t p s) \<Rightarrow> True | _ \<Rightarrow> False)"

definition rejected :: "error + reply \<Rightarrow> bool" where
  "rejected r = (case r of Inr (NotUpdated p t) \<Rightarrow> True | _ \<Rightarrow> False)"

text \<open>A run of \<^verbatim>\<open>benchmark add\<close> commands of one author on one type.\<close>

fun add_all :: "cog \<Rightarrow> member \<Rightarrow> string \<Rightarrow> (bool \<times> pyfloat) list \<Rightarrow> cog" where
  "add_all st author benchmark_type [] = st"
| "add_all st author benchmark_type ((ok, score) # rest) =
     add_all (snd (benchmark_add ok st author benchmark_type score)) author benchmark_type rest"

subsection \<open>Rankings\<close>

text \<open>
  \<^verbatim>\<open>sorted(items, key=lambda x: x[1], reverse=True)\<close> is a stable sort that compares
  keys with \<^verbatim>\<open><\<close> only; with \<^verbatim>\<open>reverse=True\<close> entries of equal score keep their
  dictionary order. Each entry, last first, is put in front of the first entry already
  placed whose score it is not below. On scores without \<^verbatim>\<open>nan\<close> every stable sort
  returns this list. With \<^verbatim>\<open>nan\<close> among the scores the comparisons are no longer an
  order: the list Python returns depends on the runs its sort finds and can differ from
  the one computed here; the statements
  below that allow \<^verbatim>\<open>nan\<close> hold for every rearrangement of the entries, and the one
  example with \<^verbatim>\<open>nan\<close> is a list on which every comparison the sort makes is false,
  so that Python too leaves it as it is.
\<close>

fun insert_desc :: "user_id \<times> pyfloat \<Rightarrow> scores \<Rightarrow> scores" where
  "insert_desc x [] = [x]"
| "insert_desc x (y # ys) = (if float_lt (snd x) (snd y) then y # insert_desc x ys else x # y # ys)"

definition sorted_scores :: "scores \<Rightarrow> scores" where
  "sorted_scores items = foldr insert_desc items []"

text \<open>\<^verbatim>\<open>sorted_scores[:n]\<close> behind the guard of \<^verbatim>\<open>benchmark view\<close>.\<close>

definition top :: "store \<Rightarrow> string \<Rightarrow> nat \<Rightarrow> scores" where
  "top lb benchmark_type n =
     (case map_of lb benchmark_type of
        None \<Rightarrow> []
      | Some scores \<Rightarrow> if scores = [] then [] else take n (sorted_scores scores))"

definition nonincreasing :: "scores \<Rightarrow> bool" where
  "nonincreasing xs = sorted_wrt (\<lambda>a b. float_ge (snd a) (snd b)) xs"

text \<open>
  \<^verbatim>\<open>bot.fetch_user\<close> returns the user or raises \<^verbatim>\<open>discord.NotFound\<close> (\<open>None\<close>);
  an entry whose user is not found is skipped and keeps no rank of its own.
\<close>

definition resolve :: "(user_id \<Rightarrow> string option) \<Rightarrow> (nat \<times> user_id \<times> pyfloat) list \<Rightarrow> (nat \<times> string \<times> pyfloat) list" where
  "resolve fetch_user ranked =
     List.map_filter
       (\<lambda>(rank, u, score). case fetch_user u of None \<Rightarrow> None | Some name \<Rightarrow> Some (rank, name, score))
       ranked"

text \<open>
  \<^verbatim>\<open>str.upper()\<close> on the letters a to z; Python also maps letters outside ASCII. Only
  the titles and field names of the embeds use it.
\<close>

definition upper_char :: "char \<Rightarrow> char" where
  "upper_char ch =
     (let n = (of_char ch :: nat) in if 97 \<le> n \<and> n \<le> 122 then char_of (n - 32) else ch)"

definition upper :: "string \<Rightarrow> string" where
  "upper s = map upper_char s"

definition benchmark_view :: "(user_id \<Rightarrow> string option) \<Rightarrow> cog \<Rightarrow> string \<Rightarrow> reply" where
  "benchmark_view fetch_user st benchmark_type =
     (if map_of (leaderboards st) benchmark_type = None \<or> map_of (leaderboards st) benchmark_type = Some []
      then NoScoresFound benchmark_type
      else ViewEmbed (upper benchmark_type)
             (resolve fetch_user (List.enumerate 1 (top (leaderboards st) benchmark_type 10))))"

subsection \<open>benchmark types\<close>

definition benchmark_types :: "cog \<Rightarrow> reply" where
  "benchmark_types st =
     (if leaderboards st = [] then NoTypes else AvailableTypes (sort (categories (leaderboards st))))"

subsection \<open>benchmark delete\<close>

definition benchmark_delete :: "bool \<Rightarrow> cog \<Rightarrow> string \<Rightarrow> member option \<Rightarrow> (error + reply) \<times> cog" where
  "benchmark_delete ok st benchmark_type user =
     (case map_of (leaderboards st) benchmark_type of
        None \<Rightarrow> (Inr (NoLeaderboardFound benchmark_type), st)
      | Some scores \<Rightarrow>
          (case user of
             Some m \<Rightarrow>
               if map_of scores (member_id m) \<noteq> None
               then persist ok
                      (st\<lparr>leaderboards :=
                           AList.update benchmark_type (AList.delete (member_id m) scores) (leaderboards st)\<rparr>)
                      (DeletedScore (member_name m) benchmark_type)
               else (Inr (HasNoScore (member_name m) benchmark_type), st)
           | None \<Rightarrow>
               persist ok
                 (st\<lparr>leaderboards := AList.delete benchmark_type (leaderboards st)\<rparr>)
                 (DeletedLeaderboard benchmark_type)))"

subsection \<open>benchmark history\<close>

definition history :: "store \<Rightarrow> user_id \<Rightarrow> (string \<times> pyfloat) list" where
  "history lb u =
     List.map_filter
       (\<lambda>(benchmark_type, scores).
          case map_of scores u of None \<Rightarrow> None | Some score \<Rightarrow> Some (benchmark_type, score))
       lb"

definition benchmark_history :: "cog \<Rightarrow> member \<Rightarrow> member option \<Rightarrow> reply" where
  "benchmark_history st author user =
     (let m = (case user of None \<Rightarrow> author | Some x \<Rightarrow> x);
          user_scores = history (leaderboards st) (member_id m)
      in if user_scores = [] then NoHistory (member_name m)
         else HistoryEmbed (member_name m) (map (\<lambda>(t, score). (upper t, score)) user_scores))"

subsection \<open>benchmark leaderboard\<close>

text \<open>
  The loop over \<^verbatim>\<open>self.leaderboards.items()\<close> with its set \<^verbatim>\<open>processed_types\<close>:
  a type without scores, or one already processed, is skipped; otherwise its first \<open>n\<close>
  sorted scores are resolved to names (\<open>n\<close> is 3 in the source) and, when at least one
  name was found, a field is added to the embed.
\<close>

fun leaderboard_fields :: "(user_id \<Rightarrow> string option) \<Rightarrow> nat \<Rightarrow> store \<Rightarrow> string set \<Rightarrow> (string \<times> (nat \<times> string \<times> pyfloat) list) list" where
  "leaderboard_fields fetch_user n [] processed_types = []"
| "leaderboard_fields fetch_user n ((benchmark_type, scores) # rest) processed_types =
     (if scores = [] \<or> benchmark_type \<in> processed_types
      then leaderboard_fields fetch_user n rest processed_types
      else
        (let leaderboard_entries =
               resolve fetch_user
                 (map (\<lambda>(rank, e). (rank + 1, e)) (List.enumerate 0 (take n (sorted_scores scores))))
         in (if leaderboard_entries = [] then [] else [(upper benchmark_type, leaderboard_entries)])
              @ leaderboard_fields fetch_user n rest (insert benchmark_type processed_types)))"

definition benchmark_leaderboard :: "(user_id \<Rightarrow> string option) \<Rightarrow> cog \<Rightarrow> reply" where
  "benchmark_leaderboard fetch_user st =
     (if leaderboards st = [] then NoScoresRecorded
      else OverallEmbed (leaderboard_fields fetch_user 3 (leaderboards st) {}))"

text \<open>
  The same loop up to the slice \<^verbatim>\<open>sorted_scores[:n]\<close>, before any name is looked up:
  the rows the fields are rendered from.
\<close>

fun leaderboard_loop :: "nat \<Rightarrow> store \<Rightarrow> string set \<Rightarrow> (string \<times> scores) list" where
  "leaderboard_loop n [] processed_types = []"
| "leaderboard_loop n ((benchmark_type, scores) # rest) processed_types =
     (if scores = [] \<or> benchmark_type \<in> processed_types
      then leaderboard_loop n rest processed_types
      else (benchmark_type, take n (sorted_scores scores))
             # leaderboard_loop n rest (insert benchmark_type processed_types))"

definition top_all_categories :: "nat \<Rightarrow> store \<Rightarrow> (string \<times> scores) list" where
  "top_all_categories n lb = leaderboard_loop n lb {}"

definition leaderboard_field :: "(user_id \<Rightarrow> string option) \<Rightarrow> string \<times> scores \<Rightarrow> (string \<times> (nat \<times> string \<times> pyfloat) list) option" where
  "leaderboard_field fetch_user row =
     (let leaderboard_entries =
            resolve fetch_user (map (\<lambda>(rank, e). (rank + 1, e)) (List.enumerate 0 (snd row)))
      in if leaderboard_entries = [] then None else Some (upper (fst row), leaderboard_entries))"

subsection \<open>Notions used in the statements\<close>

text \<open>The replies that acknowledge a mutation of the store.\<close>

definition acknowledged :: "error + reply \<Rightarrow> bool" where
  "acknowledged r =
     (case r of
        Inr (Added t s) \<Rightarrow> True
      | Inr (NewHighScore t p s) \<Rightarrow> True
      | Inr (DeletedScore n t) \<Rightarrow> True
      | Inr (DeletedLeaderboard t) \<Rightarrow> True
      | _ \<Rightarrow> False)"

text \<open>\<open>m\<close> is a maximum of the scores \<open>xs\<close> for Python's \<^verbatim>\<open><=\<close>.\<close>

definition is_maximum :: "pyfloat \<Rightarrow> pyfloat list \<Rightarrow> bool" where
  "is_maximum m xs = (m \<in> set xs \<and> list_all (\<lambda>s. float_le s m) xs)"

text \<open>No score stored under a type is \<^verbatim>\<open>nan\<close>.\<close>

definition nan_free :: "store \<Rightarrow> string \<Rightarrow> bool" where
  "nan_free lb benchmark_type =
     (case map_of lb benchmark_type of
        None \<Rightarrow> True
      | Some scores \<Rightarrow> list_all (\<lambda>entry. snd entry \<noteq> NaN) scores)"

text \<open>Two members and a store for the worked examples.\<close>

definition alice :: member where
  "alice = \<lparr>member_id = 1, member_name = ''alice''\<rparr>"

definition bob :: member where
  "bob = \<lparr>member_id = 2, member_name = ''bob''\<rparr>"

definition carol :: member where
  "carol = \<lparr>member_id = 3, member_name = ''carol''\<rparr>"

definition cpu_gpu :: store where
  "cpu_gpu = [(''cpu'', [(1, Finite 95.5), (2, Finite 99)]), (''gpu'', []), (''CPU'', [(2, Finite 7)])]"

definition nan_store :: store where
  "nan_store = [(''cpu'', [(1, Finite 1), (2, NaN), (3, Finite 2)])]"

definition cpu_state :: cog where
  "cpu_state = \<lparr>leaderboards = cpu_gpu, config = cpu_gpu, set_calls = 0\<rparr>"

section \<open>Properties\<close>

subsection \<open>Floats and dictionaries\<close>

lemma float_lt_irrefl: "\<not> float_lt a a"
  by (cases a) simp_all

lemma get_score_update_same:
  "get_score (AList.update c (AList.update u s sc) lb) c u = Some s"
  by (simp add: get_score_def AList.update_conv')

lemma leaderboards_persist: "leaderboards (snd (persist ok st r)) = leaderboards st"
  by (simp add: persist_def config_set_def)

subsection \<open>benchmark add\<close>

text \<open>
  The command in terms of the score found before it: the type is created first when it
  is new, and then holds no score.
\<close>

lemma benchmark_add_cases:
  "benchmark_add ok st a c s =
     (case get_score (leaderboards st) c (member_id a) of
        None \<Rightarrow>
          persist ok
            (st\<lparr>leaderboards :=
                 AList.update c
                   (AList.update (member_id a) s
                      (case map_of (leaderboards st) c of None \<Rightarrow> [] | Some sc \<Rightarrow> sc))
                   (leaderboards st)\<rparr>)
            (Added c s)
      | Some p \<Rightarrow>
          if float_gt s p
          then persist ok
            (st\<lparr>leaderboards :=
                 AList.update c
                   (AList.update (member_id a) s
                      (case map_of (leaderboards st) c of None \<Rightarrow> [] | Some sc \<Rightarrow> sc))
                   (leaderboards st)\<rparr>)
            (NewHighScore c p s)
          else (Inr (NotUpdated p c), st))"
  by (cases "map_of (leaderboards st) c")
     (auto simp: benchmark_add_def get_score_def Let_def AList.update_conv' split: option.splits)

lemma get_score_benchmark_add:
  "get_score (leaderboards (snd (benchmark_add ok st a c s))) c (member_id a) =
     (case get_score (leaderboards st) c (member_id a) of
        None \<Rightarrow> Some s
      | Some p \<Rightarrow> if float_gt s p then Some s else Some p)"
  by (simp add: benchmark_add_cases leaderboards_persist get_score_update_same split: option.splits)

text \<open>
  C1. With \<open>prior\<close> the score stored for the author under the type: when there is none,
  or the new score is strictly above it, the new score is stored, one write of the store
  is made and, the write returning, the reply is an acceptance and the document equals
  the store; otherwise the reply is the rejection and the whole state (store, document,
  number of writes) is unchanged. A score equal to the stored one is rejected.
\<close>

theorem put_accepted_iff:
  assumes "benchmark_add ok st a c s = (r, st')"
    and "get_score (leaderboards st) c (member_id a) = prior"
  shows "(if prior = None \<or> (\<exists>p. prior = Some p \<and> float_gt s p)
          then get_score (leaderboards st') c (member_id a) = Some s
             \<and> set_calls st' = Suc (set_calls st)
             \<and> (ok \<longrightarrow> accepted r \<and> config st' = leaderboards st')
             \<and> (\<not> ok \<longrightarrow> r = Inl PersistenceFailure)
          else rejected r \<and> \<not> accepted r \<and> st' = st)
         \<and> (prior = Some s \<longrightarrow> rejected r \<and> st' = st)"
proof (cases prior)
  case None
  with assms show ?thesis
    by (auto simp: benchmark_add_cases persist_def config_set_def accepted_def get_score_update_same)
next
  case (Some p)
  with assms show ?thesis
    by (auto simp: benchmark_add_cases persist_def config_set_def accepted_def rejected_def
        get_score_update_same float_gt_def float_lt_irrefl split: if_splits)
qed

theorem put_accepted_iff_witness:
  "accepted (fst (benchmark_add True init alice ''cpu'' (Finite 5)))
   \<and> get_score (leaderboards (snd (benchmark_add True init alice ''cpu'' (Finite 5)))) ''cpu'' 1
       = Some (Finite 5)
   \<and> rejected (fst (benchmark_add True (snd (benchmark_add True init alice ''cpu'' (Finite 5)))
         alice ''cpu'' (Finite 5)))"
proof -
  have m: "member_id alice = 1" by (simp add: alice_def)
  have p0: "get_score (leaderboards init) ''cpu'' (member_id alice) = None"
    by (simp add: init_def get_score_def)
  let ?st1 = "snd (benchmark_add True init alice ''cpu'' (Finite 5))"
  have p1: "get_score (leaderboards ?st1) ''cpu'' (member_id alice) = Some (Finite 5)"
    using put_accepted_iff [where ok = True and st = init and a = alice and c = "''cpu''"
        and s = "Finite 5", OF surjective_pairing p0]
    by simp
  show ?thesis
    using put_accepted_iff [where ok = True and st = init and a = alice and c = "''cpu''"
        and s = "Finite 5", OF surjective_pairing p0]
      put_accepted_iff [where ok = True and st = ?st1 and a = alice and c = "''cpu''"
        and s = "Finite 5", OF surjective_pairing p1] m
    by simp
qed

subsection \<open>benchmark delete\<close>

lemma benchmark_delete_cases:
  "benchmark_delete ok st c user =
     (case map_of (leaderboards st) c of
        None \<Rightarrow> (Inr (NoLeaderboardFound c), st)
      | Some sc \<Rightarrow>
          (case user of
             None \<Rightarrow>
               persist ok (st\<lparr>leaderboards := AList.delete c (leaderboards st)\<rparr>) (DeletedLeaderboard c)
           | Some m \<Rightarrow>
               if get_score (leaderboards st) c (member_id m) = None
               then (Inr (HasNoScore (member_name m) c), st)
               else persist ok
                      (st\<lparr>leaderboards :=
                           AList.update c (AList.delete (member_id m) sc) (leaderboards st)\<rparr>)
                      (DeletedScore (member_name m) c)))"
  by (auto simp: benchmark_delete_def get_score_def split: option.splits)

lemma delete_all_keys: "\<forall>k'. k' \<noteq> k \<longrightarrow> map_of al k' = None \<Longrightarrow> AList.delete k al = []"
  by (induction al) (auto split: if_splits)

lemma map_fst_update_present:
  "map_of al k = Some v \<Longrightarrow> map fst (AList.update k v' al) = map fst al"
  by (induction al) (auto split: if_splits)

lemma top_update_other:
  "c' \<noteq> c \<Longrightarrow> top (AList.update c x lb) c' n = top lb c' n"
  by (simp add: top_def AList.update_conv')

lemma get_score_update_other:
  "c' \<noteq> c \<Longrightarrow> get_score (AList.update c x lb) c' u = get_score lb c' u"
  by (simp add: get_score_def AList.update_conv')

subsection \<open>Writes and acknowledgements\<close>

text \<open>
  C3, as the code has it. For \<^verbatim>\<open>benchmark add\<close> and for both forms of
  \<^verbatim>\<open>benchmark delete\<close>: a reply that acknowledges the mutation is sent only when the
  write of the full store returned, and the document then equals the store. When the
  write raises where it would otherwise have been acknowledged, the caller gets the error
  and no reply, the document keeps its old value, and the in-memory store is the mutated
  one, the same as after a successful write: nothing is rolled back and the write is not
  tried again.
\<close>

theorem write_then_acknowledge:
  "(acknowledged (fst (benchmark_add ok st a c s)) \<longrightarrow>
      ok \<and> config (snd (benchmark_add ok st a c s)) = leaderboards (snd (benchmark_add ok st a c s)))
   \<and> (acknowledged (fst (benchmark_delete ok st c user)) \<longrightarrow>
      ok \<and> config (snd (benchmark_delete ok st c user))
             = leaderboards (snd (benchmark_delete ok st c user)))
   \<and> (acknowledged (fst (benchmark_add True st a c s)) \<longrightarrow>
        fst (benchmark_add False st a c s) = Inl PersistenceFailure
      \<and> leaderboards (snd (benchmark_add False st a c s))
          = leaderboards (snd (benchmark_add True st a c s))
      \<and> config (snd (benchmark_add False st a c s)) = config st)
   \<and> (acknowledged (fst (benchmark_delete True st c user)) \<longrightarrow>
        fst (benchmark_delete False st c user) = Inl PersistenceFailure
      \<and> leaderboards (snd (benchmark_delete False st c user))
          = leaderboards (snd (benchmark_delete True st c user))
      \<and> config (snd (benchmark_delete False st c user)) = config st)"
  by (auto simp: benchmark_add_cases benchmark_delete_cases persist_def config_set_def
      acknowledged_def split: option.splits if_splits)

theorem write_then_acknowledge_witness:
  "acknowledged (fst (benchmark_add True init alice ''cpu'' (Finite 5)))
   \<and> config (snd (benchmark_add True init alice ''cpu'' (Finite 5))) = [(''cpu'', [(1, Finite 5)])]
   \<and> fst (benchmark_add False init alice ''cpu'' (Finite 5)) = Inl PersistenceFailure
   \<and> leaderboards (snd (benchmark_add False init alice ''cpu'' (Finite 5)))
       = [(''cpu'', [(1, Finite 5)])]
   \<and> acknowledged (fst (benchmark_delete True cpu_state ''cpu'' None))
   \<and> fst (benchmark_delete False cpu_state ''cpu'' None) = Inl PersistenceFailure"
proof -
  have a: "acknowledged (fst (benchmark_add True init alice ''cpu'' (Finite 5)))"
    by (simp add: benchmark_add_def init_def alice_def persist_def acknowledged_def)
  have l: "leaderboards (snd (benchmark_add True init alice ''cpu'' (Finite 5)))
             = [(''cpu'', [(1, Finite 5)])]"
    by (simp add: benchmark_add_def init_def alice_def persist_def config_set_def)
  have d: "acknowledged (fst (benchmark_delete True cpu_state ''cpu'' None))"
    by (simp add: benchmark_delete_def cpu_state_def cpu_gpu_def persist_def acknowledged_def)
  show ?thesis
    using a l d
      write_then_acknowledge [where ok = True and st = init and a = alice and c = "''cpu''"
        and s = "Finite 5" and user = None]
      write_then_acknowledge [where ok = True and st = cpu_state and a = alice and c = "''cpu''"
        and s = "Finite 5" and user = None]
    by simp
qed

text \<open>
  A command makes at most one write, and exactly one when the write raises: the write is
  not tried again.
\<close>

lemma mutation_one_write:
  "set_calls (snd (benchmark_add ok st a c s)) \<le> Suc (set_calls st)
   \<and> (fst (benchmark_add ok st a c s) = Inl PersistenceFailure \<longrightarrow>
        set_calls (snd (benchmark_add ok st a c s)) = Suc (set_calls st))
   \<and> set_calls (snd (benchmark_delete ok st c user)) \<le> Suc (set_calls st)
   \<and> (fst (benchmark_delete ok st c user) = Inl PersistenceFailure \<longrightarrow>
        set_calls (snd (benchmark_delete ok st c user)) = Suc (set_calls st))"
  by (auto simp: benchmark_add_cases benchmark_delete_cases persist_def config_set_def
      split: option.splits)

text \<open>
  C3 as the specification states it asks for a rollback (or a retry) when the
  write fails. On the empty store, \<^verbatim>\<open>benchmark add cpu 5\<close> with a failing write raises,
  and the store holds the new score although the caller saw an error; one write was made.
\<close>

theorem no_rollback_counterexample:
  "fst (benchmark_add False init alice ''cpu'' (Finite 5)) = Inl PersistenceFailure
   \<and> leaderboards (snd (benchmark_add False init alice ''cpu'' (Finite 5))) \<noteq> leaderboards init
   \<and> leaderboards (snd (benchmark_add False init alice ''cpu'' (Finite 5)))
       = [(''cpu'', [(1, Finite 5)])]
   \<and> config (snd (benchmark_add False init alice ''cpu'' (Finite 5))) = []
   \<and> set_calls (snd (benchmark_add False init alice ''cpu'' (Finite 5))) = 1"
  by (simp add: benchmark_add_def init_def alice_def persist_def config_set_def)

text \<open>
  C5. Deleting a type that is not in the store replies that no leaderboard was found and
  returns the state as it was: the store, the document and the number of writes.
\<close>

theorem delete_absent_category:
  assumes "c \<notin> set (categories (leaderboards st))"
  shows "benchmark_delete ok st c user = (Inr (NoLeaderboardFound c), st)"
proof -
  from assms have "map_of (leaderboards st) c = None"
    by (simp add: categories_def map_of_eq_None_iff)
  then show ?thesis by (simp add: benchmark_delete_def)
qed

theorem delete_absent_category_witness:
  "fst (benchmark_delete True init ''cpu'' None) = Inr (NoLeaderboardFound ''cpu'')
   \<and> leaderboards (snd (benchmark_delete True init ''cpu'' None)) = []
   \<and> set_calls (snd (benchmark_delete True init ''cpu'' None)) = 0"
proof -
  have "''cpu'' \<notin> set (categories (leaderboards init))"
    by (simp add: categories_def init_def)
  from delete_absent_category [OF this, of True None] show ?thesis
    by (simp add: init_def)
qed

text \<open>
  C7. After the deletion of a type that is in the store, no user has a score under it,
  whether or not the write returned; the type is no longer a key of the store.
\<close>

theorem delete_category_then_get:
  assumes "c \<in> set (categories (leaderboards st))"
  shows "get_score (leaderboards (snd (benchmark_delete ok st c None))) c u = None
     \<and> c \<notin> set (categories (leaderboards (snd (benchmark_delete ok st c None))))
     \<and> (ok \<longrightarrow> fst (benchmark_delete ok st c None) = Inr (DeletedLeaderboard c))"
proof -
  from assms obtain sc where "map_of (leaderboards st) c = Some sc"
    by (cases "map_of (leaderboards st) c") (auto simp: categories_def map_of_eq_None_iff)
  then show ?thesis
    by (simp add: benchmark_delete_cases leaderboards_persist get_score_def AList.delete_conv'
        categories_def AList.delete_keys persist_def config_set_def)
qed

theorem delete_category_then_get_witness:
  "''cpu'' \<in> set (categories (leaderboards cpu_state))
   \<and> get_score (leaderboards cpu_state) ''cpu'' 1 = Some (Finite 95.5)
   \<and> get_score (leaderboards (snd (benchmark_delete True cpu_state ''cpu'' None))) ''cpu'' 1 = None"
proof -
  have h: "''cpu'' \<in> set (categories (leaderboards cpu_state))"
    by (simp add: categories_def cpu_state_def cpu_gpu_def)
  have g: "get_score (leaderboards cpu_state) ''cpu'' 1 = Some (Finite 95.5)"
    by (simp add: get_score_def cpu_state_def cpu_gpu_def)
  from delete_category_then_get [OF h, of True 1] h g show ?thesis by simp
qed

text \<open>
  C9. A type name is only ever a dictionary key: for two different names, and so for two
  names that differ in letter case alone, adding a score under one changes neither the
  scores nor the ranking under the other. With the write returning, \<^verbatim>\<open>benchmark add\<close>
  and \<^verbatim>\<open>benchmark delete\<close> reply for every name, and the guarded subscripts never raise
  \<^verbatim>\<open>KeyError\<close>; the other commands have no failing branch.
\<close>

theorem category_names_distinct:
  assumes "c' \<noteq> c"
  shows "get_score (leaderboards (snd (benchmark_add ok st a c s))) c' u
           = get_score (leaderboards st) c' u
     \<and> top (leaderboards (snd (benchmark_add ok st a c s))) c' n = top (leaderboards st) c' n
     \<and> (ok \<longrightarrow> \<not> isl (fst (benchmark_add ok st a c s)))
     \<and> (ok \<longrightarrow> \<not> isl (fst (benchmark_delete ok st c user)))
     \<and> fst (benchmark_add ok st a c s) \<noteq> Inl KeyError
     \<and> fst (benchmark_delete ok st c user) \<noteq> Inl KeyError"
  using assms
  by (auto simp: benchmark_add_cases benchmark_delete_cases persist_def config_set_def
      top_update_other get_score_update_other split: option.splits)

theorem category_names_distinct_witness:
  "''CPU'' \<noteq> ''cpu'' \<and> upper ''CPU'' = upper ''cpu''
   \<and> get_score (leaderboards (snd (benchmark_add True cpu_state alice ''cpu'' (Finite 100)))) ''cpu'' 1
       = Some (Finite 100)
   \<and> get_score (leaderboards (snd (benchmark_add True cpu_state alice ''cpu'' (Finite 100)))) ''CPU'' 1
       = None
   \<and> top (leaderboards (snd (benchmark_add True cpu_state alice ''cpu'' (Finite 100)))) ''CPU'' 10
       = [(2, Finite 7)]"
proof -
  have h: "''CPU'' \<noteq> ''cpu''" by simp
  have u: "upper ''CPU'' = upper ''cpu''" by code_simp
  have g: "get_score (leaderboards cpu_state) ''CPU'' 1 = None"
    by (simp add: get_score_def cpu_state_def cpu_gpu_def)
  have t: "top (leaderboards cpu_state) ''CPU'' 10 = [(2, Finite 7)]"
    by (simp add: top_def sorted_scores_def cpu_state_def cpu_gpu_def)
  have m: "member_id alice = 1" by (simp add: alice_def)
  have n: "get_score (leaderboards (snd (benchmark_add True cpu_state alice ''cpu'' (Finite 100))))
             ''cpu'' 1 = Some (Finite 100)"
    using get_score_benchmark_add [of True cpu_state alice "''cpu''" "Finite 100"] m
    by (simp add: get_score_def cpu_state_def cpu_gpu_def float_gt_def)
  from category_names_distinct [OF h, of True cpu_state alice "Finite 100" 1 10 None] h u g t n
  show ?thesis by simp
qed

text \<open>
  C10. Deleting the score of one user under a type keeps every key of the store, removes
  that user's score and changes no other score. When no other user had a score under the
  type, the type stays in the store with an empty dictionary, and
  \<^verbatim>\<open>benchmark types\<close> still lists it.
\<close>

theorem delete_keeps_category:
  assumes "map_of (leaderboards st) c = Some sc"
    and "map_of sc (member_id m) = Some s"
    and "benchmark_delete ok st c (Some m) = (r, st')"
  shows "categories (leaderboards st') = categories (leaderboards st)
     \<and> get_score (leaderboards st') c (member_id m) = None
     \<and> (\<forall>c' u. c' \<noteq> c \<or> u \<noteq> member_id m \<longrightarrow>
           get_score (leaderboards st') c' u = get_score (leaderboards st) c' u)
     \<and> ((\<forall>u. u \<noteq> member_id m \<longrightarrow> map_of sc u = None) \<longrightarrow>
           map_of (leaderboards st') c = Some [] \<and> entries (leaderboards st') c = 0
         \<and> c \<in> set (categories (leaderboards st'))
         \<and> (\<exists>ts. benchmark_types st' = AvailableTypes ts \<and> c \<in> set ts))"
proof -
  let ?lb' = "AList.update c (AList.delete (member_id m) sc) (leaderboards st)"
  from assms have st': "leaderboards st' = ?lb'"
    by (auto simp: benchmark_delete_cases get_score_def persist_def config_set_def)
  have cats: "categories ?lb' = categories (leaderboards st)"
    using assms(1) by (simp add: categories_def map_fst_update_present)
  have mem: "c \<in> set (categories (leaderboards st))"
    using assms(1) by (auto simp: categories_def dest: map_of_SomeD intro: rev_image_eqI)
  have g1: "get_score ?lb' c (member_id m) = None"
    by (simp add: get_score_def AList.update_conv' AList.delete_conv')
  have g2: "\<forall>c' u. c' \<noteq> c \<or> u \<noteq> member_id m \<longrightarrow>
              get_score ?lb' c' u = get_score (leaderboards st) c' u"
    using assms(1) by (auto simp: get_score_def AList.update_conv' AList.delete_conv')
  have last: "map_of ?lb' c = Some [] \<and> entries ?lb' c = 0"
    if "\<forall>u. u \<noteq> member_id m \<longrightarrow> map_of sc u = None"
    using delete_all_keys [OF that] by (simp add: entries_def AList.update_conv')
  have ne: "?lb' \<noteq> []" by simp
  have types: "\<exists>ts. benchmark_types st' = AvailableTypes ts \<and> c \<in> set ts"
    using mem cats ne by (simp add: benchmark_types_def st')
  show ?thesis
    using cats g1 g2 last types mem by (simp add: st')
qed

theorem delete_keeps_category_witness:
  "map_of (leaderboards cpu_state) ''CPU'' = Some [(2, Finite 7)]
   \<and> categories (leaderboards (snd (benchmark_delete True cpu_state ''CPU'' (Some bob))))
       = [''cpu'', ''gpu'', ''CPU'']
   \<and> entries (leaderboards (snd (benchmark_delete True cpu_state ''CPU'' (Some bob)))) ''CPU'' = 0
   \<and> ''CPU'' \<in> set (categories (leaderboards (snd (benchmark_delete True cpu_state ''CPU'' (Some bob)))))"
proof -
  have h1: "map_of (leaderboards cpu_state) ''CPU'' = Some [(2, Finite 7)]"
    by (simp add: cpu_state_def cpu_gpu_def)
  have h2: "map_of [(2, Finite 7)] (member_id bob) = Some (Finite 7)"
    by (simp add: bob_def)
  have h3: "\<forall>u. u \<noteq> member_id bob \<longrightarrow> map_of [(2::int, Finite 7)] u = None"
    by (simp add: bob_def)
  have c: "categories (leaderboards cpu_state) = [''cpu'', ''gpu'', ''CPU'']"
    by (simp add: categories_def cpu_state_def cpu_gpu_def)
  from delete_keeps_category [OF h1 h2 surjective_pairing, of True] h1 h3 c
  show ?thesis by simp
qed

subsection \<open>Runs of benchmark add\<close>

lemma float_lt_ge: "float_lt a b \<Longrightarrow> float_ge b a"
  by (cases a; cases b) (auto simp: float_ge_def)

lemma float_ge_trans: "float_ge a b \<Longrightarrow> float_ge b c \<Longrightarrow> float_ge a c"
  by (cases a; cases b; cases c) (auto simp: float_ge_def)

lemma float_lt_not_NaN: "float_lt a b \<Longrightarrow> a \<noteq> NaN \<and> b \<noteq> NaN"
  by (cases a; cases b) auto

text \<open>
  Once a score that is not \<^verbatim>\<open>nan\<close> is stored, the stored score only grows, stays a
  number, and is at least every number submitted later; a submitted \<^verbatim>\<open>nan\<close> is
  rejected.
\<close>

lemma add_all_from_score:
  assumes "get_score (leaderboards st) c (member_id a) = Some p" and "p \<noteq> NaN"
  shows "\<exists>m. get_score (leaderboards (add_all st a c xs)) c (member_id a) = Some m
           \<and> m \<noteq> NaN \<and> (m = p \<or> m \<in> snd ` set xs) \<and> float_le p m
           \<and> (\<forall>x\<in>set xs. snd x \<noteq> NaN \<longrightarrow> float_le (snd x) m)"
  using assms
proof (induction xs arbitrary: st p)
  case Nil
  then show ?case by (simp add: float_le_def float_ge_def float_lt_irrefl)
next
  case (Cons x xs)
  obtain ok s where x: "x = (ok, s)" by (cases x)
  let ?st1 = "snd (benchmark_add ok st a c s)"
  let ?p1 = "if float_gt s p then s else p"
  have g: "get_score (leaderboards ?st1) c (member_id a) = Some ?p1"
    using Cons.prems(1) by (simp add: get_score_benchmark_add)
  have n: "?p1 \<noteq> NaN"
    using Cons.prems(2) by (auto simp: float_gt_def dest: float_lt_not_NaN)
  from Cons.IH [OF g n] obtain m where
    m: "get_score (leaderboards (add_all ?st1 a c xs)) c (member_id a) = Some m"
      "m \<noteq> NaN" "m = ?p1 \<or> m \<in> snd ` set xs" "float_le ?p1 m"
      "\<forall>y\<in>set xs. snd y \<noteq> NaN \<longrightarrow> float_le (snd y) m"
    by blast
  have pp: "float_le p ?p1"
    using Cons.prems(2)
    by (auto simp: float_le_def float_gt_def float_ge_def float_lt_irrefl
        dest: float_lt_ge float_lt_not_NaN)
  have sp: "s \<noteq> NaN \<longrightarrow> float_le s ?p1"
    using Cons.prems(2) by (auto simp: float_le_def float_gt_def float_ge_def float_lt_irrefl)
  have "float_le p m" "s \<noteq> NaN \<longrightarrow> float_le s m"
    using pp sp m(4) unfolding float_le_def by (blast intro: float_ge_trans)+
  moreover have "m = p \<or> m \<in> snd ` set (x # xs)"
    using m(3) x by (auto split: if_splits)
  ultimately show ?case
    using m(1) m(2) m(5) x by auto
qed

text \<open>A stored \<^verbatim>\<open>nan\<close> is never replaced: no score is above it.\<close>

lemma add_all_from_nan:
  "get_score (leaderboards st) c (member_id a) = Some NaN \<Longrightarrow>
   get_score (leaderboards (add_all st a c xs)) c (member_id a) = Some NaN"
proof (induction xs arbitrary: st)
  case Nil
  then show ?case by simp
next
  case (Cons x xs)
  obtain ok s where x: "x = (ok, s)" by (cases x)
  have "get_score (leaderboards (snd (benchmark_add ok st a c s))) c (member_id a) = Some NaN"
    using Cons.prems by (simp add: get_score_benchmark_add float_gt_def)
  then show ?case
    using Cons.IH x by simp
qed

text \<open>
  What a run of \<^verbatim>\<open>benchmark add\<close> commands leaves, starting without a score of the
  author under the type and whatever the outcome of each write: when the first score is
  a number, the maximum of the numbers submitted; when the first score is \<^verbatim>\<open>nan\<close>,
  \<^verbatim>\<open>nan\<close>. Adding 5 and then 3 leaves 5, and the second command is rejected.
\<close>

lemma add_all_maximum:
  assumes "get_score (leaderboards st) c (member_id a) = None"
  shows "(s \<noteq> NaN \<longrightarrow>
           (\<exists>m. get_score (leaderboards (add_all st a c ((ok, s) # rest))) c (member_id a) = Some m
              \<and> is_maximum m (filter (\<lambda>x. x \<noteq> NaN) (map snd ((ok, s) # rest)))))
     \<and> get_score (leaderboards (add_all st a c ((ok, NaN) # rest))) c (member_id a) = Some NaN
     \<and> get_score (leaderboards (add_all st a c [(ok1, Finite 5), (ok2, Finite 3)])) c (member_id a)
         = Some (Finite 5)
     \<and> rejected (fst (benchmark_add ok2 (snd (benchmark_add ok1 st a c (Finite 5))) a c (Finite 3)))"
proof -
  have first: "get_score (leaderboards (snd (benchmark_add ok st a c x))) c (member_id a) = Some x"
    for ok x
    using assms by (simp add: get_score_benchmark_add)
  have num: "\<exists>m. get_score (leaderboards (add_all st a c ((ok, s) # rest))) c (member_id a) = Some m
              \<and> is_maximum m (filter (\<lambda>x. x \<noteq> NaN) (map snd ((ok, s) # rest)))"
    if s: "s \<noteq> NaN"
  proof -
    from add_all_from_score [OF first s, of ok rest] obtain m where
      m: "get_score (leaderboards (add_all (snd (benchmark_add ok st a c s)) a c rest)) c (member_id a)
            = Some m"
        "m \<noteq> NaN" "m = s \<or> m \<in> snd ` set rest" "float_le s m"
        "\<forall>y\<in>set rest. snd y \<noteq> NaN \<longrightarrow> float_le (snd y) m"
      by blast
    have "is_maximum m (filter (\<lambda>x. x \<noteq> NaN) (map snd ((ok, s) # rest)))"
      using m(2-5) s by (auto simp: is_maximum_def list_all_iff)
    with m(1) show ?thesis by auto
  qed
  have nan: "get_score (leaderboards (add_all st a c ((ok, NaN) # rest))) c (member_id a) = Some NaN"
    using add_all_from_nan [OF first, of ok rest] by simp
  have ex: "get_score (leaderboards (add_all st a c [(ok1, Finite 5), (ok2, Finite 3)])) c (member_id a)
         = Some (Finite 5)"
    using first [of ok1 "Finite 5"] by (simp add: get_score_benchmark_add float_gt_def)
  have rj: "rejected (fst (benchmark_add ok2 (snd (benchmark_add ok1 st a c (Finite 5))) a c (Finite 3)))"
    using first [of ok1 "Finite 5"] by (simp add: benchmark_add_cases float_gt_def rejected_def)
  show ?thesis
    using num nan ex rj by blast
qed

text \<open>
  C2. The claim is that after any run of \<^verbatim>\<open>benchmark add\<close> commands of one user on
  one type the stored score is the maximum score submitted. On the empty store,
  \<^verbatim>\<open>benchmark add cpu nan\<close> followed by \<^verbatim>\<open>benchmark add cpu 5\<close> leaves \<^verbatim>\<open>nan\<close>:
  \<^verbatim>\<open>5 > nan\<close> is false, so the second command replies that the previous score is
  higher and 5 is not stored, although \<^verbatim>\<open>nan\<close> is not a maximum of the two scores.
\<close>

theorem put_nan_then_five:
  "get_score (leaderboards (add_all init alice ''cpu'' [(True, NaN), (True, Finite 5)])) ''cpu'' 1
     = Some NaN
   \<and> \<not> is_maximum NaN [NaN, Finite 5]
   \<and> \<not> float_gt (Finite 5) NaN
   \<and> fst (benchmark_add True (snd (benchmark_add True init alice ''cpu'' NaN)) alice ''cpu'' (Finite 5))
       = Inr (NotUpdated NaN ''cpu'')"
  by (simp add: benchmark_add_def init_def alice_def persist_def config_set_def get_score_def
      float_gt_def is_maximum_def float_le_def float_ge_def Let_def)

subsection \<open>Rankings\<close>

lemma float_ge_total: "a \<noteq> NaN \<Longrightarrow> b \<noteq> NaN \<Longrightarrow> float_lt a b \<or> float_ge a b"
  by (simp add: float_ge_def)

lemma float_ge_refl: "a \<noteq> NaN \<Longrightarrow> float_ge a a"
  by (simp add: float_ge_def float_lt_irrefl)

lemma sorted_scores_Cons: "sorted_scores (x # xs) = insert_desc x (sorted_scores xs)"
  by (simp add: sorted_scores_def)

lemma length_insert_desc: "length (insert_desc x ys) = Suc (length ys)"
  by (induction ys) auto

lemma length_sorted_scores: "length (sorted_scores xs) = length xs"
  by (induction xs) (simp_all add: sorted_scores_def length_insert_desc)

lemma set_insert_desc: "set (insert_desc x ys) = insert x (set ys)"
  by (induction ys) auto

lemma set_sorted_scores: "set (sorted_scores xs) = set xs"
  by (induction xs) (simp_all add: sorted_scores_def set_insert_desc)

text \<open>The sort is stable: entries of one score keep their dictionary order.\<close>

lemma insert_desc_stable:
  "filter (\<lambda>e. snd e = k) (insert_desc x ys)
     = (if snd x = k then [x] else []) @ filter (\<lambda>e. snd e = k) ys"
  by (induction ys) (auto simp: float_lt_irrefl)

lemma sorted_scores_stable:
  "filter (\<lambda>e. snd e = k) (sorted_scores xs) = filter (\<lambda>e. snd e = k) xs"
  by (induction xs) (simp_all add: sorted_scores_def insert_desc_stable)

lemma nonincreasing_insert_desc:
  assumes "snd x \<noteq> NaN" and "\<forall>y\<in>set ys. snd y \<noteq> NaN" and "nonincreasing ys"
  shows "nonincreasing (insert_desc x ys)"
  using assms
proof (induction ys)
  case Nil
  then show ?case by (simp add: nonincreasing_def)
next
  case (Cons y ys)
  show ?case
  proof (cases "float_lt (snd x) (snd y)")
    case True
    then have "float_ge (snd y) (snd x)" by (rule float_lt_ge)
    with Cons True show ?thesis
      by (auto simp: nonincreasing_def set_insert_desc)
  next
    case False
    with Cons.prems have xy: "float_ge (snd x) (snd y)"
      by (simp add: float_ge_def)
    with Cons.prems False show ?thesis
      by (auto simp: nonincreasing_def intro: float_ge_trans)
  qed
qed

lemma nonincreasing_sorted_scores:
  "\<forall>y\<in>set xs. snd y \<noteq> NaN \<Longrightarrow> nonincreasing (sorted_scores xs)"
proof (induction xs)
  case Nil
  then show ?case by (simp add: sorted_scores_def nonincreasing_def)
next
  case (Cons x xs)
  then show ?case
    by (simp add: sorted_scores_Cons nonincreasing_insert_desc set_sorted_scores)
qed

lemma nonincreasing_take: "nonincreasing xs \<Longrightarrow> nonincreasing (take n xs)"
  unfolding nonincreasing_def by (rule sorted_wrt_take)

text \<open>
  The ranking of a type has length \<open>min n\<close> of the number of scores stored under it, is
  empty for a type that is absent or has no scores, and holds only entries of the type.
  It is sorted non-increasing by score whenever no score stored under the type is
  \<^verbatim>\<open>nan\<close>.
\<close>

lemma top_length_sorted:
  "length (top lb c n) = min n (entries lb c)
   \<and> (c \<notin> set (categories lb) \<or> entries lb c = 0 \<longrightarrow> top lb c n = [])
   \<and> (\<forall>sc. map_of lb c = Some sc \<longrightarrow> set (top lb c n) \<subseteq> set sc)
   \<and> (nan_free lb c \<longrightarrow> nonincreasing (top lb c n))"
proof (cases "map_of lb c")
  case None
  then show ?thesis
    by (simp add: top_def entries_def nonincreasing_def)
next
  case (Some sc)
  then have "c \<in> set (categories lb)"
    by (auto simp: categories_def dest: map_of_SomeD intro: rev_image_eqI)
  moreover have "set (take n (sorted_scores sc)) \<subseteq> set sc"
    using set_take_subset [of n "sorted_scores sc"] by (simp add: set_sorted_scores)
  moreover have "nan_free lb c \<Longrightarrow> nonincreasing (take n (sorted_scores sc))"
    using Some by (simp add: nan_free_def list_all_iff nonincreasing_take nonincreasing_sorted_scores)
  ultimately show ?thesis
    using Some by (auto simp: top_def entries_def length_sorted_scores nonincreasing_def)
qed

lemma top_cpu_gpu:
  "nan_free cpu_gpu ''cpu'' \<and> top cpu_gpu ''cpu'' 1 = [(2, Finite 99)]
   \<and> length (top cpu_gpu ''cpu'' 10) = 2 \<and> nonincreasing (top cpu_gpu ''cpu'' 10)
   \<and> top cpu_gpu ''gpu'' 10 = [] \<and> top cpu_gpu ''ram'' 10 = []"
proof -
  have n: "nan_free cpu_gpu ''cpu''" by (simp add: nan_free_def cpu_gpu_def)
  have e: "entries cpu_gpu ''cpu'' = 2" "entries cpu_gpu ''gpu'' = 0"
    "''ram'' \<notin> set (categories cpu_gpu)"
    by (simp_all add: entries_def cpu_gpu_def categories_def)
  have t: "top cpu_gpu ''cpu'' 1 = [(2, Finite 99)]"
    by (simp add: top_def cpu_gpu_def sorted_scores_def)
  from top_length_sorted [of cpu_gpu "''cpu''" 10] top_length_sorted [of cpu_gpu "''gpu''" 10]
    top_length_sorted [of cpu_gpu "''ram''" 10] n e t
  show ?thesis by simp
qed

text \<open>
  C4. The claim is that the ranking of every type is sorted non-increasing by score, of
  length \<open>min n\<close> of the number of its entries, and empty for an absent or empty type;
  the source says of the sort \<^verbatim>\<open># Sort scores in descending order\<close>. After
  \<^verbatim>\<open>benchmark add cpu 1\<close>, \<^verbatim>\<open>benchmark add cpu nan\<close> and \<^verbatim>\<open>benchmark add cpu 2\<close> by
  three users, every comparison the sort makes is false and the ranking is the
  dictionary order: 1, \<^verbatim>\<open>nan\<close>, 2, with 1 ahead of 2. It is not non-increasing.
\<close>

theorem top_nan_not_descending:
  "leaderboards
     (snd (benchmark_add True
        (snd (benchmark_add True (snd (benchmark_add True init alice ''cpu'' (Finite 1)))
           bob ''cpu'' NaN))
        carol ''cpu'' (Finite 2)))
     = nan_store
   \<and> top nan_store ''cpu'' 10 = [(1, Finite 1), (2, NaN), (3, Finite 2)]
   \<and> \<not> nonincreasing (top nan_store ''cpu'' 10)
   \<and> float_lt (Finite 1) (Finite 2)"
  by (simp add: benchmark_add_def init_def alice_def bob_def carol_def persist_def config_set_def
      Let_def top_def nan_store_def sorted_scores_def nonincreasing_def float_ge_def)

subsection \<open>The keys of the store stay distinct\<close>

text \<open>
  The statements about \<^verbatim>\<open>benchmark history\<close> and \<^verbatim>\<open>benchmark leaderboard\<close> below are
  about dictionaries, whose keys are distinct. The empty store is well formed and the
  two mutating commands keep it so.
\<close>

lemma set_update_subset: "set (AList.update k v al) \<subseteq> insert (k, v) (set al)"
  by (induction al) auto

lemma wf_store_update:
  "wf_store lb \<Longrightarrow> distinct (map fst sc) \<Longrightarrow> wf_store (AList.update c sc lb)"
  using set_update_subset [of c sc lb]
  by (auto simp: wf_store_def list_all_iff AList.distinct_update)

lemma wf_store_lookup: "wf_store lb \<Longrightarrow> map_of lb c = Some sc \<Longrightarrow> distinct (map fst sc)"
  by (auto simp: wf_store_def list_all_iff dest: map_of_SomeD)

lemma set_delete_subset: "set (AList.delete k al) \<subseteq> set al"
  by (induction al) auto

lemma wf_store_delete: "wf_store lb \<Longrightarrow> wf_store (AList.delete c lb)"
  using set_delete_subset [of c lb]
  by (auto simp: wf_store_def list_all_iff AList.distinct_delete)

lemma wf_store_init: "wf_store (leaderboards init)"
  by (simp add: wf_store_def init_def)

lemma wf_store_benchmark_add:
  assumes "wf_store (leaderboards st)"
  shows "wf_store (leaderboards (snd (benchmark_add ok st a c s)))"
proof -
  have "distinct (map fst (case map_of (leaderboards st) c of None \<Rightarrow> [] | Some sc \<Rightarrow> sc))"
    using wf_store_lookup [OF assms] by (simp split: option.splits)
  then have "wf_store (AList.update c (AList.update (member_id a) s
      (case map_of (leaderboards st) c of None \<Rightarrow> [] | Some sc \<Rightarrow> sc)) (leaderboards st))"
    by (intro wf_store_update assms) (simp add: AList.distinct_update)
  then show ?thesis
    using assms by (simp add: benchmark_add_cases leaderboards_persist split: option.splits)
qed

lemma wf_store_benchmark_delete:
  assumes "wf_store (leaderboards st)"
  shows "wf_store (leaderboards (snd (benchmark_delete ok st c user)))"
proof (cases "map_of (leaderboards st) c")
  case None
  with assms show ?thesis by (simp add: benchmark_delete_cases)
next
  case (Some sc)
  then have "distinct (map fst sc)" using assms by (simp add: wf_store_lookup)
  then have "wf_store (AList.update c (AList.delete u sc) (leaderboards st))" for u
    by (intro wf_store_update assms) (simp add: AList.distinct_delete)
  with Some assms show ?thesis
    by (simp add: benchmark_delete_cases leaderboards_persist wf_store_delete split: option.splits)
qed

lemma wf_store_categories: "wf_store lb \<Longrightarrow> distinct (categories lb)"
  by (simp add: wf_store_def categories_def)

subsection \<open>benchmark history\<close>

lemma map_of_history:
  "distinct (map fst lb) \<Longrightarrow> map_of (history lb u) c = get_score lb c u"
proof (induction lb)
  case Nil
  then show ?case by (simp add: history_def get_score_def)
next
  case (Cons e lb)
  obtain k sc where e: "e = (k, sc)" by (cases e)
  from Cons have IH: "map_of (history lb u) c = get_score lb c u" by simp
  have notin: "map_of lb k = None"
    using Cons.prems e by (simp add: map_of_eq_None_iff)
  show ?case
  proof (cases "c = k")
    case True
    have "map_of (history lb u) k = None"
      using IH notin True by (simp add: get_score_def)
    then show ?thesis
      using True e by (simp add: history_def get_score_def split: option.splits)
  next
    case False
    then show ?thesis
      using IH e by (simp add: history_def get_score_def split: option.splits)
  qed
qed

lemma history_keys: "k \<notin> fst ` set lb \<Longrightarrow> k \<notin> fst ` set (history lb u)"
proof (induction lb)
  case Nil
  then show ?case by (simp add: history_def)
next
  case (Cons e lb)
  then have "k \<notin> fst ` set (history lb u)" and "k \<noteq> fst e" by auto
  then show ?case
    by (cases e) (simp add: history_def split: option.splits)
qed

lemma distinct_history: "distinct (map fst lb) \<Longrightarrow> distinct (map fst (history lb u))"
proof (induction lb)
  case Nil
  then show ?case by (simp add: history_def)
next
  case (Cons e lb)
  obtain k sc where e: "e = (k, sc)" by (cases e)
  from Cons.prems e have "k \<notin> fst ` set lb" by simp
  then have k: "k \<notin> fst ` set (history lb u)" by (rule history_keys)
  from Cons have d: "distinct (map fst (history lb u))" by simp
  have h: "history (e # lb) u = (case map_of sc u of None \<Rightarrow> history lb u | Some x \<Rightarrow> (k, x) # history lb u)"
    by (simp add: e history_def split: option.splits)
  show ?case
    unfolding h using k d by (simp split: option.splits)
qed

lemma history_update:
  "(case map_of lb c of None \<Rightarrow> map_of sc' u = None | Some sc \<Rightarrow> map_of sc' u = map_of sc u) \<Longrightarrow>
   history (AList.update c sc' lb) u = history lb u"
  by (induction lb) (auto simp: history_def split: option.splits if_splits)

lemma history_benchmark_add_other:
  assumes "member_id v \<noteq> u"
  shows "history (leaderboards (snd (benchmark_add ok st v c s))) u = history (leaderboards st) u"
proof -
  have "history (AList.update c (AList.update (member_id v) s
          (case map_of (leaderboards st) c of None \<Rightarrow> [] | Some sc \<Rightarrow> sc)) (leaderboards st)) u
        = history (leaderboards st) u"
    using assms by (intro history_update) (simp add: AList.update_conv' split: option.splits)
  then show ?thesis
    by (simp add: benchmark_add_cases leaderboards_persist split: option.splits)
qed

text \<open>
  C6. The history of a user, read as a mapping, sends each type to the score the user
  has under it: its domain is exactly the set of types where the user has a score, it has
  one entry per type, and it is empty exactly when the user has no score at all. It does
  not depend on other users: a \<^verbatim>\<open>benchmark add\<close> by anybody else leaves it as it is.
\<close>

theorem history_exact:
  assumes "distinct (categories lb)"
  shows "map_of (history lb u) = (\<lambda>c. get_score lb c u)
     \<and> dom (map_of (history lb u)) = {c. get_score lb c u \<noteq> None}
     \<and> distinct (map fst (history lb u))
     \<and> (history lb u = [] \<longleftrightarrow> (\<forall>c. get_score lb c u = None))
     \<and> (leaderboards st = lb \<and> member_id v \<noteq> u \<longrightarrow>
          history (leaderboards (snd (benchmark_add ok st v c' s))) u = history lb u)"
proof -
  have d: "distinct (map fst lb)" using assms by (simp add: categories_def)
  have m: "map_of (history lb u) = (\<lambda>c. get_score lb c u)"
    using map_of_history [OF d] by (rule ext)
  have e: "history lb u = [] \<longleftrightarrow> (\<forall>c. get_score lb c u = None)"
  proof
    assume "history lb u = []"
    with m have "(\<lambda>c. get_score lb c u) = map_of []" by simp
    then show "\<forall>c. get_score lb c u = None" by (simp add: fun_eq_iff)
  next
    assume "\<forall>c. get_score lb c u = None"
    with m have "map_of (history lb u) = Map.empty" by simp
    then show "history lb u = []" by simp
  qed
  have dm: "dom (map_of (history lb u)) = {c. get_score lb c u \<noteq> None}"
    unfolding m by (auto simp: dom_def)
  show ?thesis
    using m dm e distinct_history [OF d, of u]
      history_benchmark_add_other [of v u ok st c' s]
    by simp
qed


theorem history_exact_witness:
  "distinct (categories cpu_gpu)
   \<and> history cpu_gpu 2 = [(''cpu'', Finite 99), (''CPU'', Finite 7)]
   \<and> map_of (history cpu_gpu 2) ''CPU'' = Some (Finite 7)
   \<and> history cpu_gpu 3 = []
   \<and> history (leaderboards (snd (benchmark_add True cpu_state alice ''gpu'' (Finite 1)))) 2
       = [(''cpu'', Finite 99), (''CPU'', Finite 7)]"
proof -
  have d: "distinct (categories cpu_gpu)" by (simp add: categories_def cpu_gpu_def)
  have h: "history cpu_gpu 2 = [(''cpu'', Finite 99), (''CPU'', Finite 7)]"
    by (simp add: history_def cpu_gpu_def)
  have g: "get_score cpu_gpu ''CPU'' 2 = Some (Finite 7)" "\<forall>c. get_score cpu_gpu c 3 = None"
    by (simp_all add: get_score_def cpu_gpu_def)
  have l: "leaderboards cpu_state = cpu_gpu \<and> member_id alice \<noteq> 2"
    by (simp add: cpu_state_def alice_def)
  from history_exact [OF d, of 2 cpu_state alice True "''gpu''" "Finite 1"]
    history_exact [OF d, of 3 cpu_state alice True "''gpu''" "Finite 1"] d h g l
  show ?thesis by simp
qed

subsection \<open>benchmark leaderboard\<close>

lemma leaderboard_fields_rows:
  "leaderboard_fields fetch_user n lb P
     = List.map_filter (leaderboard_field fetch_user) (leaderboard_loop n lb P)"
  by (induction lb arbitrary: P)
     (auto simp: leaderboard_field_def Let_def)

lemma leaderboard_loop_distinct:
  "distinct (map fst lb) \<Longrightarrow> fst ` set lb \<inter> P = {} \<Longrightarrow>
   leaderboard_loop n lb P =
     map (\<lambda>e. (fst e, take n (sorted_scores (snd e)))) (filter (\<lambda>e. snd e \<noteq> []) lb)"
proof (induction lb arbitrary: P)
  case Nil
  then show ?case by simp
next
  case (Cons e lb)
  obtain k sc where e: "e = (k, sc)" by (cases e)
  from Cons.prems e have k: "k \<notin> P" "k \<notin> fst ` set lb" "distinct (map fst lb)"
    and P: "fst ` set lb \<inter> P = {}"
    by auto
  from k(2) P have P': "fst ` set lb \<inter> insert k P = {}" by auto
  show ?case
    using Cons.IH [OF k(3) P] Cons.IH [OF k(3) P'] k(1) e by simp
qed

lemma top_of_entry:
  "distinct (map fst lb) \<Longrightarrow> e \<in> set lb \<Longrightarrow>
   top lb (fst e) n = (if snd e = [] then [] else take n (sorted_scores (snd e)))
   \<and> entries lb (fst e) = length (snd e)"
  by (cases e) (simp add: top_def entries_def)

text \<open>
  C8. The loop of \<^verbatim>\<open>benchmark leaderboard\<close> yields, in dictionary order, one row for
  each type with at least one score, holding the ranking \<open>top\<close> of that type, and no
  row for a type without scores; the command renders these rows with \<open>n = 3\<close>.
\<close>

theorem top_all_categories_exact:
  assumes "distinct (categories lb)"
  shows "top_all_categories n lb
           = map (\<lambda>c. (c, top lb c n)) (filter (\<lambda>c. 0 < entries lb c) (categories lb))
     \<and> map_of (top_all_categories n lb) c
           = (if 0 < entries lb c then Some (top lb c n) else None)
     \<and> (leaderboards st = lb \<and> lb \<noteq> [] \<longrightarrow>
          benchmark_leaderboard fetch_user st
            = OverallEmbed (List.map_filter (leaderboard_field fetch_user) (top_all_categories 3 lb)))"
proof -
  have d: "distinct (map fst lb)" using assms by (simp add: categories_def)
  have "top_all_categories n lb
          = map (\<lambda>e. (fst e, take n (sorted_scores (snd e)))) (filter (\<lambda>e. snd e \<noteq> []) lb)"
    unfolding top_all_categories_def by (rule leaderboard_loop_distinct [OF d]) simp
  also have "\<dots> = map (\<lambda>e. (fst e, top lb (fst e) n)) (filter (\<lambda>e. 0 < entries lb (fst e)) lb)"
    using top_of_entry [OF d] by (intro map_cong filter_cong refl) auto
  also have "\<dots> = map (\<lambda>c. (c, top lb c n)) (filter (\<lambda>c. 0 < entries lb c) (categories lb))"
    by (simp add: categories_def filter_map comp_def)
  finally have list: "top_all_categories n lb
          = map (\<lambda>c. (c, top lb c n)) (filter (\<lambda>c. 0 < entries lb c) (categories lb))" .
  have key: "0 < entries lb c \<Longrightarrow> c \<in> set (categories lb)"
    by (auto simp: entries_def categories_def split: option.splits dest: map_of_SomeD intro: rev_image_eqI)
  have look: "map_of (top_all_categories n lb) c
           = (if 0 < entries lb c then Some (top lb c n) else None)"
    unfolding list using key by (simp add: map_of_map_restrict restrict_map_def)
  show ?thesis
    using list look
    by (simp add: benchmark_leaderboard_def leaderboard_fields_rows top_all_categories_def)
qed

theorem top_all_categories_exact_witness:
  "distinct (categories cpu_gpu)
   \<and> top_all_categories 1 cpu_gpu = [(''cpu'', [(2, Finite 99)]), (''CPU'', [(2, Finite 7)])]
   \<and> map_of (top_all_categories 1 cpu_gpu) ''gpu'' = None
   \<and> map_of (top_all_categories 1 cpu_gpu) ''cpu'' = Some (top cpu_gpu ''cpu'' 1)"
proof -
  have d: "distinct (categories cpu_gpu)" by (simp add: categories_def cpu_gpu_def)
  have e: "entries cpu_gpu ''cpu'' = 2" "entries cpu_gpu ''gpu'' = 0" "entries cpu_gpu ''CPU'' = 1"
    by (simp_all add: entries_def cpu_gpu_def)
  have c: "categories cpu_gpu = [''cpu'', ''gpu'', ''CPU'']"
    by (simp add: categories_def cpu_gpu_def)
  have t: "top cpu_gpu ''cpu'' 1 = [(2, Finite 99)]" "top cpu_gpu ''CPU'' 1 = [(2, Finite 7)]"
    by (simp_all add: top_def cpu_gpu_def sorted_scores_def)
  from top_all_categories_exact [OF d, of 1 "''gpu''" cpu_state]
    top_all_categories_exact [OF d, of 1 "''cpu''" cpu_state] d e c t
  show ?thesis by simp
qed

end
